theory Spec2Isabelle
  imports Main "HOL-Library.Char_ord" "HOL-Library.List_Lexorder"
begin

section \<open>Python strings\<close>

text \<open>
  A Python \<open>str\<close> is modelled as a \<open>string\<close>, one \<open>char\<close> per code point. The embedding
  covers ASCII text: the case mappings below are Python's on the code points 0 to 127 and
  leave every other \<open>char\<close> alone, and \<open>is_space\<close> is \<open>str.isspace\<close> on that range.
  Strings are compared as Python compares them, lexicographically by code point
  (\<open>Char_ord\<close> and \<open>List_Lexorder\<close>).
\<close>

definition lower_char :: "char \<Rightarrow> char" where
  "lower_char c =
     (if CHR ''A'' \<le> c \<and> c \<le> CHR ''Z'' then char_of (of_char c + (32::nat)) else c)"

definition upper_char :: "char \<Rightarrow> char" where
  "upper_char c =
     (if CHR ''a'' \<le> c \<and> c \<le> CHR ''z'' then char_of (of_char c - (32::nat)) else c)"

definition lower :: "string \<Rightarrow> string" where
  "lower s = map lower_char s"

definition upper :: "string \<Rightarrow> string" where
  "upper s = map upper_char s"

text \<open>\<open>str.capitalize\<close>: the first character in upper case, the rest in lower case.\<close>

definition capitalize :: "string \<Rightarrow> string" where
  "capitalize s = (case s of [] \<Rightarrow> [] | c # cs \<Rightarrow> upper_char c # lower cs)"

text \<open>
  The ASCII characters \<open>str.isspace\<close> accepts: tab, line feed, vertical tab, form feed,
  carriage return, the four separators 28 to 31, and the space.
\<close>

definition is_space :: "char \<Rightarrow> bool" where
  "is_space c = (let n = (of_char c :: nat) in (9 \<le> n \<and> n \<le> 13) \<or> (28 \<le> n \<and> n \<le> 32))"

definition strip :: "string \<Rightarrow> string" where
  "strip s = rev (dropWhile is_space (rev (dropWhile is_space s)))"

text \<open>\<open>str(n)\<close> for an integer: its decimal digits, after a minus sign when negative.\<close>

function str_int :: "int \<Rightarrow> string" where
  "str_int n =
     (if n < 0 then CHR ''-'' # str_int (- n)
      else if n < 10 then [char_of (48 + n)]
      else str_int (n div 10) @ [char_of (48 + n mod 10)])"
  by pat_completeness auto
termination
  by (relation "measure (\<lambda>n. if n < 0 then nat (- n) + 1 else nat n)") auto

declare str_int.simps [simp del]

text \<open>\<open>range(start, stop, step)\<close> for a positive step.\<close>

definition range3 :: "int \<Rightarrow> int \<Rightarrow> int \<Rightarrow> int list" where
  "range3 start stop step =
     map (\<lambda>k. start + step * int k) [0 ..< nat ((stop - start + step - 1) div step)]"

text \<open>
  \<open>len\<close> of a set or a list is a Python integer: \<open>int (card s)\<close>, \<open>int (length xs)\<close>.
\<close>

text \<open>
  \<open>dict.fromkeys(xs)\<close> read back as a list: the keys in the order of their first
  occurrence. \<open>fromkeys seen xs\<close> inserts \<open>xs\<close> into the keys \<open>seen\<close> so far.
\<close>

fun fromkeys :: "'a list \<Rightarrow> 'a list \<Rightarrow> 'a list" where
  "fromkeys seen [] = seen"
| "fromkeys seen (x # xs) =
     (if x \<in> set seen then fromkeys seen xs else fromkeys (seen @ [x]) xs)"

definition dict_fromkeys :: "'a list \<Rightarrow> 'a list" where
  "dict_fromkeys xs = fromkeys [] xs"

text \<open>
  \<open>itertools.product(*pools)\<close>: the tuples in lexicographic order of the pools, the
  rightmost position advancing fastest.
\<close>

fun itertools_product :: "'a list list \<Rightarrow> 'a list list" where
  "itertools_product [] = [[]]"
| "itertools_product (pool # pools) =
     concat (map (\<lambda>x. map ((#) x) (itertools_product pools)) pool)"

section \<open>Constants of the generator\<close>

definition LEET_MAP :: "char \<rightharpoonup> string" where
  "LEET_MAP = map_of
     [(CHR ''a'', ''a@4''),
      (CHR ''b'', ''b8''),
      (CHR ''e'', ''e3''),
      (CHR ''i'', ''i1!''),
      (CHR ''l'', ''l1''),
      (CHR ''o'', ''o0''),
      (CHR ''s'', ''s$5''),
      (CHR ''t'', ''t7''),
      (CHR ''g'', ''g9'')]"

definition MAX_LEET_COMBINATIONS :: int where
  "MAX_LEET_COMBINATIONS = 5000"

definition MAX_FINAL_WORDLIST_SIZE :: int where
  "MAX_FINAL_WORDLIST_SIZE = 200000"

section \<open>Case variations\<close>

text \<open>
  \<open>case_variations\<close> collects the word, its lower case, its upper case and its
  capitalised form in a set and returns the set sorted.
\<close>

definition case_variations :: "string \<Rightarrow> string list" where
  "case_variations word =
     sorted_list_of_set {word, lower word, upper word, capitalize word}"

section \<open>Leet variants\<close>

text \<open>
  The options of one position: the character itself followed by the table's entry for
  its lower case, duplicates dropped; the character alone when the table has no entry.
\<close>

definition options :: "char \<Rightarrow> string" where
  "options ch =
     (case LEET_MAP (lower_char ch) of
        Some alts \<Rightarrow> dict_fromkeys (ch # alts)
      | None \<Rightarrow> [ch])"

definition choices :: "string \<Rightarrow> string list" where
  "choices word = map options word"

text \<open>
  The loop over the product: each combination is joined and added to \<open>variants\<close>, and the
  loop breaks once \<open>variants\<close> holds \<open>cap\<close> elements. A combination is a tuple of
  characters, so joining it gives the combination itself as a string.
\<close>

fun collect_variants :: "int \<Rightarrow> string list \<Rightarrow> string set \<Rightarrow> string set" where
  "collect_variants cap [] variants = variants"
| "collect_variants cap (combo # combos) variants =
     (let variants' = insert combo variants
      in if int (card variants') \<ge> cap then variants'
         else collect_variants cap combos variants')"

text \<open>
  \<open>generate_leet_variants\<close>. The source also multiplies the sizes of the choices into
  \<open>estimated\<close> before the loop; nothing reads that number, so it is left out.
\<close>

definition generate_leet_variants :: "string \<Rightarrow> int \<Rightarrow> string set" where
  "generate_leet_variants word cap =
     (if word = [] then {}
      else collect_variants cap (itertools_product (choices word)) {})"

section \<open>Base words\<close>

definition affixes :: "string list" where
  "affixes = ['''', ''123'', ''!'', ''@'', ''2025'', ''01'', ''07'']"

text \<open>The body of the loop over the case variations of one input.\<close>

definition add_variation :: "string \<Rightarrow> string set \<Rightarrow> string set" where
  "add_variation v base = fold (\<lambda>aff b. insert (v @ aff) b) affixes (insert v base)"

text \<open>The body of the loop over the inputs: blank inputs are skipped.\<close>

definition add_input :: "string \<Rightarrow> string set \<Rightarrow> string set" where
  "add_input inp0 base =
     (let inp = strip inp0
      in if inp = [] then base else fold add_variation (case_variations inp) base)"

text \<open>The lower-cased inputs of the pairwise step: the non-empty inputs, not stripped.\<close>

definition inputs_lower :: "string list \<Rightarrow> string list" where
  "inputs_lower inputs = map lower (filter (\<lambda>x. x \<noteq> []) inputs)"

definition add_pair :: "string \<Rightarrow> string \<Rightarrow> string set \<Rightarrow> string set" where
  "add_pair a b base =
     (if a \<noteq> b \<and> length a + length b \<le> 30
      then insert (a @ b @ ''123'') (insert (a @ b) base)
      else base)"

text \<open>The two nested loops over the lower-cased inputs.\<close>

definition add_pairs :: "string list \<Rightarrow> string set \<Rightarrow> string set" where
  "add_pairs ls base = fold (\<lambda>a. fold (add_pair a) ls) ls base"

text \<open>The set \<open>base\<close> at the end of \<open>build_base_words\<close>, before it is sorted.\<close>

definition base_set :: "string list \<Rightarrow> string set" where
  "base_set inputs = add_pairs (inputs_lower inputs) (fold add_input inputs {})"

definition build_base_words :: "string list \<Rightarrow> string list" where
  "build_base_words inputs = sorted_list_of_set (base_set inputs)"

section \<open>The wordlist\<close>

definition year_range :: "int list" where
  "year_range = range3 1990 2026 5"

text \<open>
  The loop over the years for one base word: it breaks as soon as \<open>all_words\<close> has
  reached the cap, and otherwise adds the year as a suffix and as a prefix.
\<close>

fun add_years :: "string \<Rightarrow> int list \<Rightarrow> string set \<Rightarrow> string set" where
  "add_years w [] all_words = all_words"
| "add_years w (year # ys) all_words =
     (if int (card all_words) \<ge> MAX_FINAL_WORDLIST_SIZE then all_words
      else add_years w ys
             (insert (str_int year @ w) (insert (w @ str_int year) all_words)))"

text \<open>
  The body of the loop over the base words, for a word of at most 40 characters: the leet
  variants (at most 500), the years, and the two numeric endings when the cap is not yet
  reached.
\<close>

definition word_step :: "string \<Rightarrow> string set \<Rightarrow> string set" where
  "word_step w all_words =
     (let a1 = all_words \<union> generate_leet_variants w 500;
          a2 = add_years w year_range a1
      in if int (card a2) < MAX_FINAL_WORDLIST_SIZE
         then insert (w @ ''1234'') (insert (w @ ''007'') a2)
         else a2)"

text \<open>
  The loop over the base words. A word longer than 40 characters is skipped; after the
  body the loop breaks when the cap is reached.
\<close>

fun expand_words :: "string list \<Rightarrow> string set \<Rightarrow> string set" where
  "expand_words [] all_words = all_words"
| "expand_words (w # ws) all_words =
     (if length w > 40 then expand_words ws all_words
      else
        let all_words' = word_step w all_words
        in if int (card all_words') \<ge> MAX_FINAL_WORDLIST_SIZE then all_words'
           else expand_words ws all_words')"

text \<open>The set \<open>all_words\<close> when the loop over the base words has ended.\<close>

definition all_words_of :: "string list \<Rightarrow> string set" where
  "all_words_of inputs =
     (let base_words = build_base_words inputs
      in expand_words base_words (set base_words))"

text \<open>
  \<open>generate_wordlist\<close> returns nothing and writes \<open>final_list\<close> to the output file;
  the model returns \<open>final_list\<close>, and \<open>written_file\<close> is the text of the file.
\<close>

definition cap_list :: "string list \<Rightarrow> string list" where
  "cap_list final_list =
     (if int (length final_list) > MAX_FINAL_WORDLIST_SIZE
      then take (nat MAX_FINAL_WORDLIST_SIZE) final_list
      else final_list)"

definition generate_wordlist :: "string list \<Rightarrow> string list" where
  "generate_wordlist inputs = cap_list (sorted_list_of_set (all_words_of inputs))"

definition written_file :: "string list \<Rightarrow> string" where
  "written_file inputs = concat (map (\<lambda>item. item @ ''\<newline>'') (generate_wordlist inputs))"

section \<open>Reading the file back\<close>

abbreviation CR :: char where
  "CR \<equiv> CHR 0x0D"

text \<open>
  Modelled from the spec: the source only writes the file, with \<open>open(out_path, "w")\<close>
  in text mode; the reader of the round trip is not part of it. \<open>read_lines\<close> is the
  text-mode reader that pairs with that writer. It reads with universal newlines: a
  carriage return followed by a line feed, and a carriage return alone, are translated
  into a line feed (\<open>translate_newlines\<close>), and the text is then split at every line
  feed (\<open>read_lines_from\<close>); a last line without a line feed is kept.
  \<open>written_file\<close> is the text as the source passes it to \<open>write\<close>; where the platform
  stores a line feed as carriage return and line feed, the reader translates it back.
\<close>

fun translate_newlines :: "string \<Rightarrow> string" where
  "translate_newlines [] = []"
| "translate_newlines [c] = [if c = CR then CHR ''\<newline>'' else c]"
| "translate_newlines (c # d # cs) =
     (if c = CR \<and> d = CHR ''\<newline>'' then CHR ''\<newline>'' # translate_newlines cs
      else if c = CR then CHR ''\<newline>'' # translate_newlines (d # cs)
      else c # translate_newlines (d # cs))"

fun read_lines_from :: "string \<Rightarrow> string \<Rightarrow> string list" where
  "read_lines_from cur [] = (if cur = [] then [] else [cur])"
| "read_lines_from cur (c # cs) =
     (if c = CHR ''\<newline>'' then cur # read_lines_from [] cs
      else read_lines_from (cur @ [c]) cs)"

definition read_lines :: "string \<Rightarrow> string list" where
  "read_lines s = read_lines_from [] (translate_newlines s)"

section \<open>Runs under any iteration order of sets\<close>

text \<open>
  Python does not fix the order in which a set of strings is iterated: it depends on the
  hash seed of the process and on the history of the set. \<open>sorted(s)\<close> lists the set in
  that order and sorts the list. A run of \<open>generate_wordlist\<close> is described by relations
  that leave the iteration order open wherever the source sorts a set; every other step
  of a run is the function defined above.
\<close>

inductive py_sorted :: "string set \<Rightarrow> string list \<Rightarrow> bool" where
  "set xs = s \<Longrightarrow> distinct xs \<Longrightarrow> py_sorted s (sort xs)"

inductive case_variations_run :: "string \<Rightarrow> string list \<Rightarrow> bool" where
  "py_sorted {word, lower word, upper word, capitalize word} variants \<Longrightarrow>
   case_variations_run word variants"

inductive add_inputs_run :: "string list \<Rightarrow> string set \<Rightarrow> string set \<Rightarrow> bool" where
  "add_inputs_run [] base base"
| "strip inp = [] \<Longrightarrow> add_inputs_run inps base base' \<Longrightarrow>
   add_inputs_run (inp # inps) base base'"
| "strip inp \<noteq> [] \<Longrightarrow> case_variations_run (strip inp) variants \<Longrightarrow>
   add_inputs_run inps (fold add_variation variants base) base' \<Longrightarrow>
   add_inputs_run (inp # inps) base base'"

inductive build_base_words_run :: "string list \<Rightarrow> string list \<Rightarrow> bool" where
  "add_inputs_run inputs {} base \<Longrightarrow>
   py_sorted (add_pairs (inputs_lower inputs) base) base_words \<Longrightarrow>
   build_base_words_run inputs base_words"

inductive generate_wordlist_run :: "string list \<Rightarrow> string list \<Rightarrow> bool" where
  "build_base_words_run inputs base_words \<Longrightarrow>
   py_sorted (expand_words base_words (set base_words)) final_list \<Longrightarrow>
   generate_wordlist_run inputs (cap_list final_list)"

section \<open>The words of each step\<close>

text \<open>
  The sets the lemmas below use to describe what each loop adds: the words of one input,
  of one pair of lower-cased inputs, of the years and of one base word.
\<close>

definition input_words :: "string \<Rightarrow> string set" where
  "input_words inp0 =
     (if strip inp0 = [] then {}
      else (\<Union>v \<in> set (case_variations (strip inp0)). insert v ((\<lambda>aff. v @ aff) ` set affixes)))"

definition pair_words :: "string \<Rightarrow> string \<Rightarrow> string set" where
  "pair_words a b =
     (if a \<noteq> b \<and> length a + length b \<le> 30 then {a @ b, a @ b @ ''123''} else {})"

definition year_words :: "string \<Rightarrow> int list \<Rightarrow> string set" where
  "year_words w ys = (\<Union>y \<in> set ys. {str_int y @ w, w @ str_int y})"

definition derived_words :: "string \<Rightarrow> string set" where
  "derived_words w =
     generate_leet_variants w 500 \<union> year_words w year_range \<union> {w @ ''007'', w @ ''1234''}"

section \<open>Properties of the leet variants\<close>

lemma finite_collect_variants:
  "finite variants \<Longrightarrow> finite (collect_variants cap combos variants)"
  by (induction combos arbitrary: variants) (auto simp: Let_def)

lemma card_collect_variants:
  "finite variants \<Longrightarrow> int (card variants) < cap \<Longrightarrow>
   int (card (collect_variants cap combos variants)) \<le> cap"
proof (induction combos arbitrary: variants)
  case Nil
  then show ?case by simp
next
  case (Cons combo combos)
  let ?v = "insert combo variants"
  have fin: "finite ?v" using Cons.prems(1) by simp
  have le: "int (card ?v) \<le> cap"
    using Cons.prems by (simp add: card_insert_if)
  show ?case
  proof (cases "int (card ?v) \<ge> cap")
    case True
    then show ?thesis using le by (simp add: Let_def)
  next
    case False
    then have "int (card ?v) < cap" by simp
    from Cons.IH[OF fin this] False show ?thesis by (simp add: Let_def)
  qed
qed

lemma finite_generate_leet_variants: "finite (generate_leet_variants word cap)"
  by (simp add: generate_leet_variants_def finite_collect_variants)

lemma collect_variants_subset:
  "collect_variants cap combos variants \<subseteq> variants \<union> set combos"
  by (induction combos arbitrary: variants) (auto simp: Let_def)

lemma length_itertools_product:
  "v \<in> set (itertools_product pools) \<Longrightarrow> length v = length pools"
  by (induction pools arbitrary: v) auto


lemma generate_leet_variants_length:
  "v \<in> generate_leet_variants word cap \<Longrightarrow> length v = length word"
  using collect_variants_subset[of cap "itertools_product (choices word)" "{}"]
  by (auto simp: generate_leet_variants_def choices_def split: if_splits
           dest!: subsetD length_itertools_product)

lemma itertools_product_singletons:
  "itertools_product (map (\<lambda>c. [c]) word) = [word]"
  by (induction word) auto

lemma choices_no_subst:
  "\<forall>c \<in> set word. LEET_MAP (lower_char c) = None \<Longrightarrow> choices word = map (\<lambda>c. [c]) word"
  by (simp add: choices_def options_def)

text \<open>
  Claim C2. For every word and every positive cap, the set returned by
  \<open>generate_leet_variants\<close> is finite and has at most \<open>cap\<close> elements.
\<close>

theorem leet_variants_card_le_cap:
  "0 < cap \<Longrightarrow>
     finite (generate_leet_variants word cap) \<and>
     int (card (generate_leet_variants word cap)) \<le> cap"
  using card_collect_variants[of "{}" cap "itertools_product (choices word)"]
  by (simp add: generate_leet_variants_def finite_collect_variants)

theorem leet_variants_card_le_cap_witness:
  "(0::int) < 2 \<and> finite (generate_leet_variants ''ab'' 2) \<and>
   int (card (generate_leet_variants ''ab'' 2)) \<le> 2 \<and>
   generate_leet_variants ''ab'' 2 = {''ab'', ''a8''}"
proof -
  have "generate_leet_variants ''ab'' 2 = {''ab'', ''a8''}" by code_simp
  then show ?thesis using leet_variants_card_le_cap[of 2 "''ab''"] by simp
qed

text \<open>
  Claim C4, as the spec states it: \<open>leet_variants("ab", 100)\<close> is the three-element set
  of "ab", "@b" and "4b". The table gives \<open>b\<close> the alternative \<open>8\<close>, so the claim fails.
\<close>

theorem leet_variants_ab_not_three:
  "generate_leet_variants ''ab'' 100 \<noteq> {''ab'', ''@b'', ''4b''}"
  by code_simp

text \<open>
  Claim C4, amended: \<open>leet_variants("ab", 100)\<close> is the full product of the three
  options of \<open>a\<close> and the two options of \<open>b\<close>, a set of exactly six elements.
\<close>

theorem leet_variants_ab_six:
  "generate_leet_variants ''ab'' 100 = {''ab'', ''a8'', ''@b'', ''@8'', ''4b'', ''48''} \<and>
   card (generate_leet_variants ''ab'' 100) = 6"
  by code_simp

text \<open>
  Claim C5. For every positive cap, the empty word has no leet variants, and a non-empty
  word none of whose characters has its lower case in the table has itself as its only
  variant.
\<close>

theorem leet_variants_edge_cases:
  "0 < cap \<Longrightarrow>
     generate_leet_variants [] cap = {} \<and>
     (word \<noteq> [] \<and> (\<forall>c \<in> set word. LEET_MAP (lower_char c) = None) \<longrightarrow>
        generate_leet_variants word cap = {word})"
  by (auto simp: generate_leet_variants_def choices_no_subst itertools_product_singletons
        Let_def)

theorem leet_variants_edge_cases_witness:
  "(0::int) < 500 \<and> generate_leet_variants [] 500 = {} \<and>
   ''Murphy-7'' \<noteq> [] \<and> list_all (\<lambda>c. LEET_MAP (lower_char c) = None) ''Murphy-7'' \<and>
   generate_leet_variants ''Murphy-7'' 500 = {''Murphy-7''}"
proof -
  have h: "list_all (\<lambda>c. LEET_MAP (lower_char c) = None) ''Murphy-7''" by code_simp
  then have "\<forall>c \<in> set ''Murphy-7''. LEET_MAP (lower_char c) = None"
    by (simp only: list_all_iff)
  then show ?thesis using h leet_variants_edge_cases[of 500 "''Murphy-7''"] by simp
qed

text \<open>
  Claim C10. For every non-empty word and every positive cap, every leet variant has the
  length of the word.
\<close>

theorem leet_variants_same_length:
  "word \<noteq> [] \<Longrightarrow> 0 < cap \<Longrightarrow>
     \<forall>v \<in> generate_leet_variants word cap. length v = length word"
  by (simp add: generate_leet_variants_length)

theorem leet_variants_same_length_witness:
  "''Tiger'' \<noteq> [] \<and> (0::int) < 500 \<and> ''7!93r'' \<in> generate_leet_variants ''Tiger'' 500 \<and>
   length ''7!93r'' = length ''Tiger''"
proof -
  have m: "''7!93r'' \<in> generate_leet_variants ''Tiger'' 500" by code_simp
  have "\<forall>v \<in> generate_leet_variants ''Tiger'' 500. length v = length ''Tiger''"
    by (rule leet_variants_same_length) simp_all
  with m have "length ''7!93r'' = length ''Tiger''" by (rule bspec[rotated])
  with m show ?thesis by simp
qed

section \<open>Properties of the case variations\<close>

lemma set_case_variations:
  "set (case_variations word) = {word, lower word, upper word, capitalize word}"
  unfolding case_variations_def
  by (rule sorted_list_of_set.set_sorted_key_list_of_set) simp

text \<open>
  Claim C6, as the spec states it: the case variations of the empty string are empty.
  The function has no guard for the empty word, and returns the list holding the empty
  string.
\<close>

theorem case_variations_empty_not_empty:
  "set (case_variations []) \<noteq> {}"
  by (simp add: set_case_variations)

text \<open>
  Claim C6, amended: the case variations of the empty string are the empty string alone;
  for every non-empty word the result is non-empty and consists of the word unchanged,
  in lower case, in upper case and capitalised, and the case variations of "Vijay" are
  "Vijay", "vijay" and "VIJAY".
\<close>

theorem case_variations_contents:
  "case_variations [] = [[]] \<and>
   (word \<noteq> [] \<longrightarrow>
      case_variations word \<noteq> [] \<and>
      set (case_variations word) = {word, lower word, upper word, capitalize word}) \<and>
   set (case_variations ''Vijay'') = {''Vijay'', ''vijay'', ''VIJAY''} \<and>
   length (case_variations ''Vijay'') = 3"
proof -
  have e: "case_variations [] = [[]]" by code_simp
  have v: "case_variations ''Vijay'' = [''VIJAY'', ''Vijay'', ''vijay'']" by code_simp
  have n: "case_variations word \<noteq> []"
    using set_case_variations[of word] by auto
  show ?thesis using e n by (auto simp: v set_case_variations)
qed

theorem case_variations_contents_witness:
  "''Tiger'' \<noteq> [] \<and> case_variations ''Tiger'' \<noteq> [] \<and>
   set (case_variations ''Tiger'') =
     {''Tiger'', lower ''Tiger'', upper ''Tiger'', capitalize ''Tiger''} \<and>
   case_variations ''Tiger'' = [''TIGER'', ''Tiger'', ''tiger'']"
proof -
  have "case_variations ''Tiger'' = [''TIGER'', ''Tiger'', ''tiger'']" by code_simp
  then show ?thesis using case_variations_contents[of "''Tiger''"] by simp
qed

section \<open>Properties of the wordlist\<close>

text \<open>
  Claim C1. For every input token list the list that \<open>generate_wordlist\<close> writes has at
  most \<open>MAX_FINAL_WORDLIST_SIZE\<close>, that is 200000, entries.
\<close>

theorem generate_wordlist_length_le_cap:
  "int (length (generate_wordlist inputs)) \<le> MAX_FINAL_WORDLIST_SIZE \<and>
   MAX_FINAL_WORDLIST_SIZE = 200000"
  by (simp add: generate_wordlist_def cap_list_def MAX_FINAL_WORDLIST_SIZE_def)

section \<open>Properties of the base words\<close>

lemma fold_insert_affix:
  "fold (\<lambda>aff b. insert (v @ aff) b) affs base = base \<union> (\<lambda>aff. v @ aff) ` set affs"
  by (induction affs arbitrary: base) auto

lemma add_variation_eq:
  "add_variation v base = base \<union> insert v ((\<lambda>aff. v @ aff) ` set affixes)"
  by (auto simp: add_variation_def fold_insert_affix)

lemma fold_add_variation:
  "fold add_variation vs base =
     base \<union> (\<Union>v \<in> set vs. insert v ((\<lambda>aff. v @ aff) ` set affixes))"
  by (induction vs arbitrary: base) (auto simp: add_variation_eq)

lemma add_input_eq: "add_input inp0 base = base \<union> input_words inp0"
  by (simp add: add_input_def input_words_def fold_add_variation Let_def)

lemma fold_add_input:
  "fold add_input inputs base = base \<union> (\<Union>inp \<in> set inputs. input_words inp)"
  by (induction inputs arbitrary: base) (auto simp: add_input_eq)

lemma add_pair_eq: "add_pair a b base = base \<union> pair_words a b"
  by (auto simp: add_pair_def pair_words_def)

lemma fold_add_pair:
  "fold (add_pair a) ls base = base \<union> (\<Union>b \<in> set ls. pair_words a b)"
  by (induction ls arbitrary: base) (auto simp: add_pair_eq)

lemma fold_fold_add_pair:
  "fold (\<lambda>a. fold (add_pair a) ls) ls' base =
     base \<union> (\<Union>a \<in> set ls'. \<Union>b \<in> set ls. pair_words a b)"
  by (induction ls' arbitrary: base) (auto simp: fold_add_pair)

lemma add_pairs_eq:
  "add_pairs ls base = base \<union> (\<Union>a \<in> set ls. \<Union>b \<in> set ls. pair_words a b)"
  by (simp add: add_pairs_def fold_fold_add_pair)

lemma base_set_eq:
  "base_set inputs =
     (\<Union>inp \<in> set inputs. input_words inp) \<union>
     (\<Union>a \<in> set (inputs_lower inputs). \<Union>b \<in> set (inputs_lower inputs). pair_words a b)"
  by (simp add: base_set_def add_pairs_eq fold_add_input)

lemma finite_input_words: "finite (input_words inp)"
  by (simp add: input_words_def)

lemma finite_pair_words: "finite (pair_words a b)"
  by (simp add: pair_words_def)

lemma finite_base_set: "finite (base_set inputs)"
  by (simp add: base_set_eq finite_input_words finite_pair_words)

lemma set_build_base_words: "set (build_base_words inputs) = base_set inputs"
  by (simp add: build_base_words_def finite_base_set)

lemma length_build_base_words: "length (build_base_words inputs) = card (base_set inputs)"
  by (simp add: build_base_words_def)

lemma pair_in_base_set:
  assumes "a \<in> set (inputs_lower inputs)" and "b \<in> set (inputs_lower inputs)"
    and "a \<noteq> b" and "length a + length b \<le> 30"
  shows "a @ b \<in> base_set inputs \<and> a @ b @ ''123'' \<in> base_set inputs"
proof -
  have "pair_words a b = {a @ b, a @ b @ ''123''}"
    using assms(3,4) by (simp add: pair_words_def)
  then have "{a @ b, a @ b @ ''123''} \<subseteq> base_set inputs"
    unfolding base_set_eq using assms(1,2) by blast
  then show ?thesis by simp
qed

text \<open>
  Claim C7. The base words of "Tiger" and "2000" include "tiger2000", "tiger2000123",
  "Tiger" and "Tiger123"; and for all inputs, every two distinct lower-cased inputs of
  combined length at most 30 are concatenated in both orders, each with and without the
  ending "123".
\<close>

theorem build_base_words_pairs:
  "''tiger2000'' \<in> set (build_base_words [''Tiger'', ''2000'']) \<and>
   ''tiger2000123'' \<in> set (build_base_words [''Tiger'', ''2000'']) \<and>
   ''Tiger'' \<in> set (build_base_words [''Tiger'', ''2000'']) \<and>
   ''Tiger123'' \<in> set (build_base_words [''Tiger'', ''2000'']) \<and>
   (a \<in> set (inputs_lower inputs) \<and> b \<in> set (inputs_lower inputs) \<and>
    a \<noteq> b \<and> length a + length b \<le> 30 \<longrightarrow>
      a @ b \<in> set (build_base_words inputs) \<and>
      a @ b @ ''123'' \<in> set (build_base_words inputs) \<and>
      b @ a \<in> set (build_base_words inputs) \<and>
      b @ a @ ''123'' \<in> set (build_base_words inputs))"
proof -
  have 1: "''tiger2000'' \<in> base_set [''Tiger'', ''2000'']" by code_simp
  have 2: "''tiger2000123'' \<in> base_set [''Tiger'', ''2000'']" by code_simp
  have 3: "''Tiger'' \<in> base_set [''Tiger'', ''2000'']" by code_simp
  have 4: "''Tiger123'' \<in> base_set [''Tiger'', ''2000'']" by code_simp
  have 5: "a @ b \<in> base_set inputs \<and> a @ b @ ''123'' \<in> base_set inputs \<and>
           b @ a \<in> base_set inputs \<and> b @ a @ ''123'' \<in> base_set inputs"
    if "a \<in> set (inputs_lower inputs)" "b \<in> set (inputs_lower inputs)"
       "a \<noteq> b" "length a + length b \<le> 30"
    using pair_in_base_set[of a inputs b] pair_in_base_set[of b inputs a] that
    by (simp add: add.commute)
  show ?thesis
    unfolding set_build_base_words using 1 2 3 4 5 by blast
qed

theorem build_base_words_pairs_witness:
  "''tiger'' \<in> set (inputs_lower [''Tiger'', ''2000'']) \<and>
   ''2000'' \<in> set (inputs_lower [''Tiger'', ''2000'']) \<and>
   ''tiger'' \<noteq> ''2000'' \<and> length ''tiger'' + length ''2000'' \<le> 30 \<and>
   ''tiger'' @ ''2000'' \<in> set (build_base_words [''Tiger'', ''2000'']) \<and>
   ''tiger'' @ ''2000'' @ ''123'' \<in> set (build_base_words [''Tiger'', ''2000'']) \<and>
   ''2000'' @ ''tiger'' \<in> set (build_base_words [''Tiger'', ''2000'']) \<and>
   ''2000'' @ ''tiger'' @ ''123'' \<in> set (build_base_words [''Tiger'', ''2000''])"
proof -
  have h: "''tiger'' \<in> set (inputs_lower [''Tiger'', ''2000'']) \<and>
           ''2000'' \<in> set (inputs_lower [''Tiger'', ''2000''])" by code_simp
  moreover have "''tiger'' \<noteq> ''2000'' \<and> length ''tiger'' + length ''2000'' \<le> 30" by simp
  ultimately show ?thesis
    using build_base_words_pairs[of "''tiger''" "[''Tiger'', ''2000'']" "''2000''"] by blast
qed

section \<open>Properties of the loop over the base words\<close>

lemma add_years_subset: "add_years w ys A \<subseteq> A \<union> year_words w ys"
  by (induction ys arbitrary: A) (auto simp: year_words_def)

lemma add_years_mono: "A \<subseteq> add_years w ys A"
proof (induction ys arbitrary: A)
  case Nil
  then show ?case by simp
next
  case (Cons y ys)
  have "A \<subseteq> insert (str_int y @ w) (insert (w @ str_int y) A)" by blast
  also have "\<dots> \<subseteq> add_years w ys (insert (str_int y @ w) (insert (w @ str_int y) A))"
    by (rule Cons.IH)
  finally show ?case by simp
qed

lemma finite_add_years: "finite A \<Longrightarrow> finite (add_years w ys A)"
  by (induction ys arbitrary: A) auto

lemma card_add_years: "finite A \<Longrightarrow> card (add_years w ys A) \<le> card A + 2 * length ys"
proof (induction ys arbitrary: A)
  case Nil
  then show ?case by simp
next
  case (Cons y ys)
  let ?B = "insert (str_int y @ w) (insert (w @ str_int y) A)"
  have "finite ?B" using Cons.prems by simp
  from Cons.IH[OF this] have "card (add_years w ys ?B) \<le> card ?B + 2 * length ys" .
  moreover have "card ?B \<le> card A + 2"
    using Cons.prems by (simp add: card_insert_if)
  ultimately show ?case by simp
qed

lemma expand_words_Cons:
  "expand_words (w # ws) A =
     (if length w > 40 then expand_words ws A
      else if int (card (word_step w A)) \<ge> MAX_FINAL_WORDLIST_SIZE then word_step w A
      else expand_words ws (word_step w A))"
  by (simp add: Let_def)

lemma word_step_subset: "word_step w A \<subseteq> A \<union> derived_words w"
proof -
  have "add_years w year_range (A \<union> generate_leet_variants w 500)
          \<subseteq> (A \<union> generate_leet_variants w 500) \<union> year_words w year_range"
    by (rule add_years_subset)
  then show ?thesis
    unfolding word_step_def Let_def derived_words_def by auto
qed

lemma word_step_mono: "A \<subseteq> word_step w A"
proof -
  have "A \<union> generate_leet_variants w 500
          \<subseteq> add_years w year_range (A \<union> generate_leet_variants w 500)"
    by (rule add_years_mono)
  then show ?thesis
    unfolding word_step_def Let_def by auto
qed

lemma finite_word_step: "finite A \<Longrightarrow> finite (word_step w A)"
  unfolding word_step_def Let_def
  by (simp add: finite_add_years finite_generate_leet_variants)

lemma length_year_range: "length year_range = 8"
  by (simp add: year_range_def range3_def)

lemma generate_leet_variants_card:
  "0 < cap \<Longrightarrow> int (card (generate_leet_variants word cap)) \<le> cap"
  using card_collect_variants[of "{}" cap "itertools_product (choices word)"]
  by (simp add: generate_leet_variants_def)

lemma card_leet_500: "card (generate_leet_variants w 500) \<le> 500"
  using generate_leet_variants_card[of 500 w] by simp

lemma card_word_step:
  assumes "finite A"
  shows "card (word_step w A) \<le> card A + 518"
proof -
  let ?a1 = "A \<union> generate_leet_variants w 500"
  let ?a2 = "add_years w year_range ?a1"
  have f1: "finite ?a1" using assms by (simp add: finite_generate_leet_variants)
  have "card ?a1 \<le> card A + card (generate_leet_variants w 500)"
    by (rule card_Un_le)
  then have c1: "card ?a1 \<le> card A + 500"
    using card_leet_500[of w] by linarith
  have "card ?a2 \<le> card ?a1 + 2 * length year_range"
    using f1 by (rule card_add_years)
  then have c2: "card ?a2 \<le> card A + 516"
    using c1 by (simp add: length_year_range)
  have f2: "finite ?a2" using f1 by (rule finite_add_years)
  have "card (insert (w @ ''1234'') (insert (w @ ''007'') ?a2)) \<le> card ?a2 + 2"
    using f2 by (simp add: card_insert_if)
  then have c3: "card (insert (w @ ''1234'') (insert (w @ ''007'') ?a2)) \<le> card A + 518"
    using c2 by linarith
  show ?thesis
  proof (cases "int (card ?a2) < MAX_FINAL_WORDLIST_SIZE")
    case True
    then show ?thesis unfolding word_step_def Let_def using c3 by simp
  next
    case False
    then show ?thesis unfolding word_step_def Let_def using c2 by simp
  qed
qed

lemma expand_words_subset:
  "expand_words ws A \<subseteq> A \<union> (\<Union>w \<in> set ws. derived_words w)"
proof (induction ws arbitrary: A)
  case Nil
  then show ?case by simp
next
  case (Cons w ws)
  have step: "word_step w A \<subseteq> A \<union> derived_words w" by (rule word_step_subset)
  have rec: "expand_words ws (word_step w A)
               \<subseteq> word_step w A \<union> (\<Union>w \<in> set ws. derived_words w)"
    by (rule Cons.IH)
  have skip: "expand_words ws A \<subseteq> A \<union> (\<Union>w \<in> set ws. derived_words w)"
    by (rule Cons.IH)
  show ?case
    unfolding expand_words_Cons using step rec skip by (simp only: split: if_split) auto
qed

lemma expand_words_mono: "A \<subseteq> expand_words ws A"
proof (induction ws arbitrary: A)
  case Nil
  then show ?case by simp
next
  case (Cons w ws)
  have step: "A \<subseteq> word_step w A" by (rule word_step_mono)
  have rec: "word_step w A \<subseteq> expand_words ws (word_step w A)" by (rule Cons.IH)
  have skip: "A \<subseteq> expand_words ws A" by (rule Cons.IH)
  show ?case
    unfolding expand_words_Cons using step rec skip by (simp only: split: if_split) auto
qed

lemma finite_expand_words: "finite A \<Longrightarrow> finite (expand_words ws A)"
proof (induction ws arbitrary: A)
  case Nil
  then show ?case by simp
next
  case (Cons w ws)
  have f: "finite (word_step w A)" using Cons.prems by (rule finite_word_step)
  show ?case
    unfolding expand_words_Cons using f Cons.IH[OF f] Cons.IH[OF Cons.prems]
    by (simp only: split: if_split) simp
qed

lemma card_expand_words:
  "finite A \<Longrightarrow> card (expand_words ws A) \<le> card A + 518 * length ws"
proof (induction ws arbitrary: A)
  case Nil
  then show ?case by simp
next
  case (Cons w ws)
  have f: "finite (word_step w A)" using Cons.prems by (rule finite_word_step)
  have c: "card (word_step w A) \<le> card A + 518" using Cons.prems by (rule card_word_step)
  have rec: "card (expand_words ws (word_step w A)) \<le> card (word_step w A) + 518 * length ws"
    using f by (rule Cons.IH)
  have skip: "card (expand_words ws A) \<le> card A + 518 * length ws"
    using Cons.prems by (rule Cons.IH)
  have l: "518 * length (w # ws) = 518 + 518 * length ws" by simp
  show ?case
    unfolding expand_words_Cons l using c rec skip by (simp only: split: if_split) linarith
qed

section \<open>Line ends and empty strings\<close>









lemma lower_Nil_iff: "lower s = [] \<longleftrightarrow> s = []"
  by (simp add: lower_def)

lemma upper_Nil_iff: "upper s = [] \<longleftrightarrow> s = []"
  by (simp add: upper_def)

lemma capitalize_Nil_iff: "capitalize s = [] \<longleftrightarrow> s = []"
  by (cases s) (simp_all add: capitalize_def)


lemma year_words_eq:
  "year_words w year_range = (\<Union>y \<in> set (map str_int year_range). {y @ w, w @ y})"
  by (simp add: year_words_def)






section \<open>The entries of the wordlist\<close>

lemma finite_all_words_of: "finite (all_words_of inputs)"
  unfolding all_words_of_def Let_def by (rule finite_expand_words) simp

lemma all_words_of_subset:
  "all_words_of inputs \<subseteq> base_set inputs \<union> (\<Union>w \<in> base_set inputs. derived_words w)"
  using expand_words_subset[of "build_base_words inputs" "set (build_base_words inputs)"]
  by (simp add: all_words_of_def Let_def set_build_base_words)

lemma base_subset_all_words: "base_set inputs \<subseteq> all_words_of inputs"
  using expand_words_mono[of "set (build_base_words inputs)" "build_base_words inputs"]
  by (simp add: all_words_of_def Let_def set_build_base_words)

lemma set_cap_list_subset: "set (cap_list xs) \<subseteq> set xs"
  by (auto simp: cap_list_def dest: in_set_takeD)

lemma set_generate_wordlist_subset: "set (generate_wordlist inputs) \<subseteq> all_words_of inputs"
  using set_cap_list_subset[of "sorted_list_of_set (all_words_of inputs)"]
  by (simp add: generate_wordlist_def finite_all_words_of)

lemma card_all_words_of: "card (all_words_of inputs) \<le> 519 * card (base_set inputs)"
proof -
  have "card (all_words_of inputs)
          \<le> card (set (build_base_words inputs)) + 518 * length (build_base_words inputs)"
    unfolding all_words_of_def Let_def by (rule card_expand_words) simp
  then show ?thesis
    by (simp add: set_build_base_words length_build_base_words)
qed

lemma generate_wordlist_untruncated:
  assumes "519 * card (base_set inputs) \<le> 200000"
  shows "set (generate_wordlist inputs) = all_words_of inputs"
proof -
  have "card (all_words_of inputs) \<le> 200000"
    using card_all_words_of[of inputs] assms by linarith
  then have "cap_list (sorted_list_of_set (all_words_of inputs))
               = sorted_list_of_set (all_words_of inputs)"
    by (simp add: cap_list_def MAX_FINAL_WORDLIST_SIZE_def)
  then show ?thesis
    by (simp add: generate_wordlist_def finite_all_words_of)
qed

lemma wordlist_cases:
  assumes "x \<in> set (generate_wordlist inputs)"
  shows "x \<in> base_set inputs \<or> (\<exists>w \<in> base_set inputs. x \<in> derived_words w)"
  using assms set_generate_wordlist_subset[of inputs] all_words_of_subset[of inputs]
  by blast

lemma Nil_in_affixes: "[] \<in> set affixes"
  by (simp add: affixes_def)

lemma input_words_cases:
  assumes "x \<in> input_words inp"
  shows "strip inp \<noteq> [] \<and>
         (\<exists>v \<in> {strip inp, lower (strip inp), upper (strip inp), capitalize (strip inp)}.
            \<exists>aff \<in> set affixes. x = v @ aff)"
proof -
  from assms have ne: "strip inp \<noteq> []"
    by (auto simp: input_words_def split: if_splits)
  with assms obtain v where v: "v \<in> set (case_variations (strip inp))"
    and x: "x = v \<or> (\<exists>aff \<in> set affixes. x = v @ aff)"
    by (auto simp: input_words_def)
  from x have "\<exists>aff \<in> set affixes. x = v @ aff"
    using Nil_in_affixes by force
  with v ne show ?thesis
    unfolding set_case_variations by blast
qed

lemma pair_words_cases:
  assumes "x \<in> pair_words a b"
  shows "x = a @ b \<or> x = a @ b @ ''123''"
  using assms by (auto simp: pair_words_def split: if_splits)

lemma base_set_cases:
  assumes "x \<in> base_set inputs"
  shows "(\<exists>inp \<in> set inputs. strip inp \<noteq> [] \<and>
            (\<exists>v \<in> {strip inp, lower (strip inp), upper (strip inp), capitalize (strip inp)}.
               \<exists>aff \<in> set affixes. x = v @ aff))
       \<or> (\<exists>a \<in> set inputs. \<exists>b \<in> set inputs. a \<noteq> [] \<and> b \<noteq> [] \<and>
            (x = lower a @ lower b \<or> x = lower a @ lower b @ ''123''))"
proof -
  from assms consider
      inp where "inp \<in> set inputs" "x \<in> input_words inp"
    | a b where "a \<in> set (inputs_lower inputs)" "b \<in> set (inputs_lower inputs)"
        "x \<in> pair_words a b"
    unfolding base_set_eq by blast
  then show ?thesis
  proof cases
    case 1
    then show ?thesis using input_words_cases[of x inp] by blast
  next
    case 2
    from 2(1) obtain a' where a': "a' \<in> set inputs" "a' \<noteq> []" "a = lower a'"
      by (auto simp: inputs_lower_def)
    from 2(2) obtain b' where b': "b' \<in> set inputs" "b' \<noteq> []" "b = lower b'"
      by (auto simp: inputs_lower_def)
    from pair_words_cases[OF 2(3)] a' b' show ?thesis by blast
  qed
qed

lemma derived_cases:
  assumes "v \<in> derived_words w"
  shows "v \<in> generate_leet_variants w 500
       \<or> (\<exists>y \<in> set (map str_int year_range). v = y @ w \<or> v = w @ y)
       \<or> v = w @ ''007'' \<or> v = w @ ''1234''"
  using assms unfolding derived_words_def year_words_def by auto

lemma base_set_nonempty: "x \<in> base_set inputs \<Longrightarrow> x \<noteq> []"
  by (drule base_set_cases) (auto simp: lower_Nil_iff upper_Nil_iff capitalize_Nil_iff)

lemma derived_nonempty:
  assumes "w \<noteq> []" and "v \<in> derived_words w"
  shows "v \<noteq> []"
  using derived_cases[OF assms(2)] assms(1) generate_leet_variants_length[of v w 500]
  by auto

lemma generate_wordlist_nonempty: "x \<in> set (generate_wordlist inputs) \<Longrightarrow> x \<noteq> []"
  using wordlist_cases[of x inputs] base_set_nonempty derived_nonempty by blast






text \<open>
  Claim C8. For every input list whose tokens are non-empty after trimming, every entry
  of the generated wordlist is non-empty.
\<close>

theorem wordlist_entries_nonempty:
  "\<forall>t \<in> set inputs. strip t \<noteq> [] \<Longrightarrow> \<forall>w \<in> set (generate_wordlist inputs). w \<noteq> []"
  by (simp add: generate_wordlist_nonempty)

theorem wordlist_entries_nonempty_witness:
  "list_all (\<lambda>t. strip t \<noteq> []) ['' Tiger '', ''2000''] \<and>
   list_all (\<lambda>w. w \<noteq> []) (generate_wordlist ['' Tiger '', ''2000''])"
proof -
  have h: "list_all (\<lambda>t. strip t \<noteq> []) ['' Tiger '', ''2000'']" by code_simp
  then have "\<forall>t \<in> set ['' Tiger '', ''2000'']. strip t \<noteq> []"
    by (simp only: list_all_iff)
  from wordlist_entries_nonempty[OF this] h show ?thesis by (simp only: list_all_iff)
qed

section \<open>Writing the wordlist and reading it back\<close>

text \<open>The three line ends, and a last line without one.\<close>

lemma read_lines_example:
  "read_lines [CHR ''a'', CR, CHR ''\<newline>'', CHR ''b'', CR, CHR ''c'', CHR ''\<newline>'', CHR ''d'']
     = [''a'', ''b'', ''c'', ''d'']"
  by code_simp


lemma translate_newlines_no_CR: "CR \<notin> set (translate_newlines s)"
  by (induction s rule: translate_newlines.induct) auto



lemma read_lines_from_chars:
  "l \<in> set (read_lines_from cur s) \<Longrightarrow> set l \<subseteq> set cur \<union> set s"
proof (induction s arbitrary: cur)
  case Nil
  then show ?case by (auto split: if_splits)
next
  case (Cons c s)
  show ?case
  proof (cases "c = CHR ''\<newline>''")
    case True
    with Cons.prems have "l = cur \<or> l \<in> set (read_lines_from [] s)" by simp
    then show ?thesis
    proof
      assume "l = cur"
      then show ?thesis by auto
    next
      assume "l \<in> set (read_lines_from [] s)"
      from Cons.IH[OF this] show ?thesis by auto
    qed
  next
    case False
    with Cons.prems have "l \<in> set (read_lines_from (cur @ [c]) s)" by simp
    from Cons.IH[OF this] show ?thesis by auto
  qed
qed

lemma read_lines_from_no_newline:
  "CHR ''\<newline>'' \<notin> set cur \<Longrightarrow> l \<in> set (read_lines_from cur s) \<Longrightarrow> CHR ''\<newline>'' \<notin> set l"
proof (induction s arbitrary: cur)
  case Nil
  then show ?case by (auto split: if_splits)
next
  case (Cons c s)
  show ?case
  proof (cases "c = CHR ''\<newline>''")
    case True
    with Cons.prems(2) have "l = cur \<or> l \<in> set (read_lines_from [] s)" by simp
    then show ?thesis
    proof
      assume "l = cur"
      with Cons.prems(1) show ?thesis by simp
    next
      assume "l \<in> set (read_lines_from [] s)"
      with Cons.IH[of "[]"] show ?thesis by simp
    qed
  next
    case False
    with Cons.prems(2) have "l \<in> set (read_lines_from (cur @ [c]) s)" by simp
    moreover have "CHR ''\<newline>'' \<notin> set (cur @ [c])"
      using Cons.prems(1) False by auto
    ultimately show ?thesis using Cons.IH[of "cur @ [c]"] by blast
  qed
qed

text \<open>No line that is read back holds a line feed or a carriage return.\<close>

lemma read_lines_no_line_end:
  assumes "l \<in> set (read_lines s)"
  shows "CHR ''\<newline>'' \<notin> set l \<and> CR \<notin> set l"
proof -
  from assms have m: "l \<in> set (read_lines_from [] (translate_newlines s))"
    by (simp add: read_lines_def)
  have "CHR ''\<newline>'' \<notin> set l"
    by (rule read_lines_from_no_newline[OF _ m]) simp
  moreover have "CR \<notin> set l"
    using read_lines_from_chars[OF m] translate_newlines_no_CR[of s] by auto
  ultimately show ?thesis by simp
qed


text \<open>An entry that holds a line end is not read back: the lists differ.\<close>

lemma line_end_entry_not_read_back:
  assumes "x \<in> set (generate_wordlist inputs)"
    and "CHR ''\<newline>'' \<in> set x \<or> CR \<in> set x"
  shows "read_lines (written_file inputs) \<noteq> generate_wordlist inputs"
proof
  assume "read_lines (written_file inputs) = generate_wordlist inputs"
  with assms(1) have "x \<in> set (read_lines (written_file inputs))" by simp
  from read_lines_no_line_end[OF this] assms(2) show False by blast
qed


text \<open>
  A carriage return inside a token does the same: it is written as it is, and the
  reader ends a line at it. The token of \<open>a\<close>, a carriage return and \<open>b\<close> holds no line
  feed, is itself an entry, and the file does not read back as the list.
\<close>

lemma wordlist_carriage_return_entry:
  "CHR ''\<newline>'' \<notin> set [CHR ''a'', CR, CHR ''b''] \<and>
   [CHR ''a'', CR, CHR ''b''] \<in> set (generate_wordlist [[CHR ''a'', CR, CHR ''b'']]) \<and>
   read_lines (written_file [[CHR ''a'', CR, CHR ''b'']])
     \<noteq> generate_wordlist [[CHR ''a'', CR, CHR ''b'']]"
proof -
  have b: "[CHR ''a'', CR, CHR ''b''] \<in> base_set [[CHR ''a'', CR, CHR ''b'']]" by code_simp
  have c: "card (base_set [[CHR ''a'', CR, CHR ''b'']]) = 21" by code_simp
  have "set (generate_wordlist [[CHR ''a'', CR, CHR ''b'']])
          = all_words_of [[CHR ''a'', CR, CHR ''b'']]"
    by (rule generate_wordlist_untruncated) (simp add: c)
  with b base_subset_all_words[of "[[CHR ''a'', CR, CHR ''b'']]"]
  have m: "[CHR ''a'', CR, CHR ''b''] \<in> set (generate_wordlist [[CHR ''a'', CR, CHR ''b'']])"
    by blast
  have n: "CHR ''\<newline>'' \<notin> set [CHR ''a'', CR, CHR ''b'']" by simp
  from m have "read_lines (written_file [[CHR ''a'', CR, CHR ''b'']])
                 \<noteq> generate_wordlist [[CHR ''a'', CR, CHR ''b'']]"
    by (rule line_end_entry_not_read_back) simp
  with m n show ?thesis by blast
qed



section \<open>Determinism\<close>

lemma py_sorted_unique:
  assumes "py_sorted s out"
  shows "out = sorted_list_of_set s"
  using assms
proof cases
  case (1 xs)
  have "sorted_list_of_set (set xs) = sort (remdups xs)"
    by (rule sorted_list_of_set_sort_remdups)
  with 1 show ?thesis by (simp add: distinct_remdups_id)
qed

lemma py_sorted_any_order:
  assumes "set xs = s" and "distinct xs"
  shows "py_sorted s (sort xs)"
  using assms by (rule py_sorted.intros)

lemma py_sorted_exists:
  assumes "finite s"
  shows "py_sorted s (sorted_list_of_set s)"
proof -
  have "py_sorted s (sort (sorted_list_of_set s))"
    using assms by (intro py_sorted.intros) simp_all
  then show ?thesis by (simp add: sorted_sort_id)
qed

lemma py_sorted_reversed:
  assumes "finite s"
  shows "py_sorted s (sort (rev (sorted_list_of_set s)))"
  using assms by (intro py_sorted.intros) simp_all

lemma case_variations_run_unique:
  "case_variations_run word variants \<Longrightarrow> variants = case_variations word"
  by (auto elim!: case_variations_run.cases dest: py_sorted_unique simp: case_variations_def)

lemma case_variations_run_exists: "case_variations_run word (case_variations word)"
  unfolding case_variations_def
  by (intro case_variations_run.intros py_sorted_exists) simp

lemma add_inputs_run_unique:
  "add_inputs_run inputs base base' \<Longrightarrow> base' = fold add_input inputs base"
  by (induction rule: add_inputs_run.induct)
     (auto simp: add_input_def Let_def dest: case_variations_run_unique)

lemma add_inputs_run_exists: "add_inputs_run inputs base (fold add_input inputs base)"
proof (induction inputs arbitrary: base)
  case Nil
  show ?case by (simp add: add_inputs_run.intros)
next
  case (Cons inp inps)
  show ?case
  proof (cases "strip inp = []")
    case True
    then have "add_input inp base = base" by (simp add: add_input_def)
    with True Cons[of base] show ?thesis
      by (simp add: add_inputs_run.intros(2))
  next
    case False
    then have e: "add_input inp base = fold add_variation (case_variations (strip inp)) base"
      by (simp add: add_input_def)
    have "add_inputs_run inps (fold add_variation (case_variations (strip inp)) base)
            (fold add_input inps (add_input inp base))"
      unfolding e by (rule Cons)
    with False case_variations_run_exists[of "strip inp"] show ?thesis
      by (simp add: add_inputs_run.intros(3))
  qed
qed

lemma build_base_words_run_unique:
  "build_base_words_run inputs base_words \<Longrightarrow> base_words = build_base_words inputs"
  by (auto elim!: build_base_words_run.cases
           dest!: add_inputs_run_unique py_sorted_unique
           simp: build_base_words_def base_set_def)

lemma build_base_words_run_exists: "build_base_words_run inputs (build_base_words inputs)"
proof -
  have "py_sorted (add_pairs (inputs_lower inputs) (fold add_input inputs {}))
          (build_base_words inputs)"
    unfolding build_base_words_def
    using finite_base_set[of inputs] by (simp add: base_set_def py_sorted_exists)
  with add_inputs_run_exists[of inputs "{}"] show ?thesis
    by (rule build_base_words_run.intros)
qed

lemma generate_wordlist_run_unique:
  "generate_wordlist_run inputs out \<Longrightarrow> out = generate_wordlist inputs"
  by (auto elim!: generate_wordlist_run.cases
           dest!: build_base_words_run_unique py_sorted_unique
           simp: generate_wordlist_def all_words_of_def Let_def)

lemma generate_wordlist_run_exists: "generate_wordlist_run inputs (generate_wordlist inputs)"
proof -
  have "py_sorted (expand_words (build_base_words inputs) (set (build_base_words inputs)))
          (sorted_list_of_set (all_words_of inputs))"
    using finite_all_words_of[of inputs] by (simp add: all_words_of_def Let_def py_sorted_exists)
  with build_base_words_run_exists[of inputs]
  have "generate_wordlist_run inputs (cap_list (sorted_list_of_set (all_words_of inputs)))"
    by (rule generate_wordlist_run.intros)
  then show ?thesis by (simp add: generate_wordlist_def)
qed

lemma generate_wordlist_run_reversed:
  "generate_wordlist_run inputs (cap_list (sort (rev (sorted_list_of_set (all_words_of inputs)))))"
proof -
  have "py_sorted (expand_words (build_base_words inputs) (set (build_base_words inputs)))
          (sort (rev (sorted_list_of_set (all_words_of inputs))))"
    using finite_all_words_of[of inputs] py_sorted_reversed[of "all_words_of inputs"]
    by (simp add: all_words_of_def Let_def)
  with build_base_words_run_exists[of inputs] show ?thesis
    by (rule generate_wordlist_run.intros)
qed

text \<open>
  Claim C3. Two runs of \<open>generate_wordlist\<close> on the same inputs return the same list,
  whatever order the sets are iterated in.
\<close>

theorem generate_wordlist_deterministic:
  "generate_wordlist_run inputs out1 \<Longrightarrow> generate_wordlist_run inputs out2 \<Longrightarrow> out1 = out2"
proof -
  assume "generate_wordlist_run inputs out1"
  then have 1: "out1 = generate_wordlist inputs" by (rule generate_wordlist_run_unique)
  assume "generate_wordlist_run inputs out2"
  then have "out2 = generate_wordlist inputs" by (rule generate_wordlist_run_unique)
  with 1 show "out1 = out2" by simp
qed

theorem generate_wordlist_deterministic_witness:
  "generate_wordlist_run [''abc''] (generate_wordlist [''abc'']) \<and>
   generate_wordlist_run [''abc'']
     (cap_list (sort (rev (sorted_list_of_set (all_words_of [''abc'']))))) \<and>
   generate_wordlist [''abc''] =
     cap_list (sort (rev (sorted_list_of_set (all_words_of [''abc'']))))"
proof -
  have r1: "generate_wordlist_run [''abc''] (generate_wordlist [''abc''])"
    by (rule generate_wordlist_run_exists)
  have r2: "generate_wordlist_run [''abc'']
              (cap_list (sort (rev (sorted_list_of_set (all_words_of [''abc''])))))"
    by (rule generate_wordlist_run_reversed)
  from generate_wordlist_deterministic[OF r1 r2] r1 r2 show ?thesis by blast
qed

end
